theory Spec2Isabelle
  imports Main "HOL-Library.Sublist"
begin

section \<open>Changelog automation: scripts/changelog/utils.py and update-changelog.py\<close>

text \<open>
  A shallow embedding of the changelog scripts. Python \<open>str\<close> values are modelled as
  \<open>string\<close>, a character standing for the code point of its number (the code points below
  256); the character classes of the regular expressions (\<open>\w\<close>, \<open>\d\<close>, \<open>\s\<close>),
  \<open>str.isspace\<close> and \<open>str.lower\<close> are those of Python on these code points. Exceptions are
  values of type \<open>error\<close>, the
  file system, the git history and the console are explicit arguments, and the messages the
  scripts print as warnings are returned as a list of \<open>notice\<close>.
\<close>

subsection \<open>Text primitives of Python used by the scripts\<close>

abbreviation nl :: char where
  "nl \<equiv> CHR 0x0A"

abbreviation backslash :: char where
  "backslash \<equiv> CHR 0x5C"

text \<open>\<open>\d\<close>: the decimal digits, which below 256 are 0 to 9.\<close>

definition is_digit :: "char \<Rightarrow> bool" where
  "is_digit c = (c \<in> set ''0123456789'')"

definition is_octdigit :: "char \<Rightarrow> bool" where
  "is_octdigit c = (c \<in> set ''01234567'')"

definition is_ascii_letter :: "char \<Rightarrow> bool" where
  "is_ascii_letter c = (c \<in> set ''abcdefghijklmnopqrstuvwxyzABCDEFGHIJKLMNOPQRSTUVWXYZ'')"

text \<open>
  The code points from 128 to 255 for which \<open>str.isalnum\<close> holds: the letters (170, 181,
  186, 192 to 214, 216 to 246, 248 to 255), the superscript digits (178, 179, 185) and the
  fractions (188 to 190).
\<close>

definition is_latin1_alnum :: "char \<Rightarrow> bool" where
  "is_latin1_alnum c =
     (let n = (of_char c :: nat)
      in n \<in> set [170, 178, 179, 181, 185, 186, 188, 189, 190] \<or> (192 \<le> n \<and> n \<le> 214) \<or>
         (216 \<le> n \<and> n \<le> 246) \<or> (248 \<le> n \<and> n \<le> 255))"

text \<open>\<open>\w\<close> in a pattern for \<open>str\<close>: the alphanumeric characters and the underscore.\<close>

definition is_word :: "char \<Rightarrow> bool" where
  "is_word c = (is_ascii_letter c \<or> is_digit c \<or> c = CHR ''_'' \<or> is_latin1_alnum c)"

text \<open>
  \<open>\s\<close> and \<open>str.isspace\<close>: the code points 9 to 13, 28 to 31, the blank, 133 (next line)
  and 160 (no-break space).
\<close>

definition is_space :: "char \<Rightarrow> bool" where
  "is_space c = (c \<in> set [CHR 0x09, CHR 0x0A, CHR 0x0B, CHR 0x0C, CHR 0x0D,
                           CHR 0x1C, CHR 0x1D, CHR 0x1E, CHR 0x1F, CHR '' '',
                           CHR 0x85, CHR 0xA0])"

text \<open>
  \<open>str.lower\<close>: the ASCII capitals, and the capitals 192 to 214 and 216 to 222, whose small
  letters stand 32 code points higher; every other character stays.
\<close>

definition lower_char :: "char \<Rightarrow> char" where
  "lower_char c =
     (case map_of (zip ''ABCDEFGHIJKLMNOPQRSTUVWXYZ'' ''abcdefghijklmnopqrstuvwxyz'') c of
        Some l \<Rightarrow> l
      | None \<Rightarrow>
          (let n = (of_char c :: nat)
           in if (192 \<le> n \<and> n \<le> 214) \<or> (216 \<le> n \<and> n \<le> 222) then char_of (n + 32) else c))"

definition lower :: "string \<Rightarrow> string" where
  "lower s = map lower_char s"

text \<open>\<open>sub in s\<close>: the substring test.\<close>

fun py_in :: "string \<Rightarrow> string \<Rightarrow> bool" where
  "py_in sub [] = (sub = [])"
| "py_in sub (c # cs) = (prefix sub (c # cs) \<or> py_in sub cs)"

text \<open>\<open>s.split(sep)\<close> for a one-character separator, and \<open>sep.join(parts)\<close>.\<close>

fun split_on :: "char \<Rightarrow> string \<Rightarrow> string list" where
  "split_on sep [] = [[]]"
| "split_on sep (c # cs) =
     (if c = sep then [] # split_on sep cs
      else (case split_on sep cs of [] \<Rightarrow> [[c]] | p # ps \<Rightarrow> (c # p) # ps))"

fun join :: "string \<Rightarrow> string list \<Rightarrow> string" where
  "join sep [] = []"
| "join sep [p] = p"
| "join sep (p # q # ps) = p @ sep @ join sep (q # ps)"

text \<open>\<open>s.replace(old, new)\<close>: every non-overlapping occurrence, from the left.\<close>

function py_replace :: "string \<Rightarrow> string \<Rightarrow> string \<Rightarrow> string" where
  "py_replace old new [] = []"
| "py_replace old new (c # cs) =
     (if old \<noteq> [] \<and> prefix old (c # cs)
      then new @ py_replace old new (drop (length old - 1) cs)
      else c # py_replace old new cs)"
  by pat_completeness auto
termination
  by (relation "measure (\<lambda>(old, new, s). length s)") auto

definition strip :: "string \<Rightarrow> string" where
  "strip s = rev (dropWhile is_space (rev (dropWhile is_space s)))"

text \<open>Decimal numerals: \<open>int(s)\<close> on a run of digits and \<open>str(n)\<close>.\<close>

definition digit_val :: "char \<Rightarrow> nat" where
  "digit_val c = of_char c - 48"

definition nat_of_digits :: "string \<Rightarrow> nat" where
  "nat_of_digits s = foldl (\<lambda>n c. 10 * n + digit_val c) 0 s"

definition digit_char :: "nat \<Rightarrow> char" where
  "digit_char n = ''0123456789'' ! n"

function string_of_nat :: "nat \<Rightarrow> string" where
  "string_of_nat n =
     (if n < 10 then [digit_char n] else string_of_nat (n div 10) @ [digit_char (n mod 10)])"
  by pat_completeness auto
termination
  by (relation "measure id") auto

declare string_of_nat.simps [simp del]

definition zfill :: "nat \<Rightarrow> string \<Rightarrow> string" where
  "zfill w s = replicate (w - length s) CHR ''0'' @ s"

subsection \<open>Errors and printed notices\<close>

datatype error =
    ValueError
  | FileNotFoundError
  | AttributeError
  | JSONError
  | ReError
  | EOFError

datatype notice =
    ForceModeNotice
  | VersionFallbackWarning
  | LinksWarning error

subsection \<open>The semver package\<close>

text \<open>
  Modelled from the spec: the \<open>semver\<close> package (\<open>VersionInfo.parse\<close>, \<open>bump_major\<close>,
  \<open>bump_minor\<close>, \<open>bump_patch\<close>, \<open>str\<close>) is an external dependency and not part of the
  sources. A version is a triple of non-negative integers with an optional pre-release and
  build suffix; a string is accepted only under the strict semantic-versioning grammar
  \<open>MAJOR.MINOR.PATCH[-prerelease][+build]\<close>; a major bump increments major and resets minor
  and patch to 0, a minor bump increments minor and resets patch to 0, a patch bump
  increments patch; the order is the standard precedence of semantic versioning.
\<close>

record version =
  major :: nat
  minor :: nat
  patch :: nat
  prerelease :: "string option"
  build :: "string option"

definition is_numeric_ident :: "string \<Rightarrow> bool" where
  "is_numeric_ident s =
     (s = ''0'' \<or> (s \<noteq> [] \<and> list_all is_digit s \<and> hd s \<noteq> CHR ''0''))"

definition is_ident_char :: "char \<Rightarrow> bool" where
  "is_ident_char c = (is_digit c \<or> is_ascii_letter c \<or> c = CHR ''-'')"

definition valid_prerelease :: "string \<Rightarrow> bool" where
  "valid_prerelease p =
     list_all (\<lambda>i. i \<noteq> [] \<and> list_all is_ident_char i \<and>
                    (if list_all is_digit i then is_numeric_ident i else True))
       (split_on CHR ''.'' p)"

definition valid_build :: "string \<Rightarrow> bool" where
  "valid_build b = list_all (\<lambda>i. i \<noteq> [] \<and> list_all is_ident_char i) (split_on CHR ''.'' b)"

definition semver_parse :: "string \<Rightarrow> version option" where
  "semver_parse s =
     (let is_core = (\<lambda>c. c \<noteq> CHR ''-'' \<and> c \<noteq> CHR ''+'');
          core = takeWhile is_core s;
          rest = dropWhile is_core s;
          pre = (case rest of
                   c # r \<Rightarrow> if c = CHR ''-'' then Some (takeWhile (\<lambda>c. c \<noteq> CHR ''+'') r) else None
                 | [] \<Rightarrow> None);
          rest' = (case rest of
                     c # r \<Rightarrow> if c = CHR ''-'' then dropWhile (\<lambda>c. c \<noteq> CHR ''+'') r else rest
                   | [] \<Rightarrow> []);
          bld = (case rest' of [] \<Rightarrow> None | c # r \<Rightarrow> Some r)
      in case split_on CHR ''.'' core of
           [a, b, c] \<Rightarrow>
             if is_numeric_ident a \<and> is_numeric_ident b \<and> is_numeric_ident c \<and>
                (case pre of None \<Rightarrow> True | Some p \<Rightarrow> valid_prerelease p) \<and>
                (case bld of None \<Rightarrow> True | Some b \<Rightarrow> valid_build b)
             then Some \<lparr>major = nat_of_digits a, minor = nat_of_digits b,
                        patch = nat_of_digits c, prerelease = pre, build = bld\<rparr>
             else None
         | _ \<Rightarrow> None)"

definition version_str :: "version \<Rightarrow> string" where
  "version_str v =
     string_of_nat (major v) @ ''.'' @ string_of_nat (minor v) @ ''.'' @ string_of_nat (patch v)
       @ (case prerelease v of None \<Rightarrow> [] | Some p \<Rightarrow> ''-'' @ p)
       @ (case build v of None \<Rightarrow> [] | Some b \<Rightarrow> ''+'' @ b)"

definition bump_major :: "version \<Rightarrow> version" where
  "bump_major v = \<lparr>major = major v + 1, minor = 0, patch = 0, prerelease = None, build = None\<rparr>"

definition bump_minor :: "version \<Rightarrow> version" where
  "bump_minor v =
     \<lparr>major = major v, minor = minor v + 1, patch = 0, prerelease = None, build = None\<rparr>"

definition bump_patch :: "version \<Rightarrow> version" where
  "bump_patch v =
     \<lparr>major = major v, minor = minor v, patch = patch v + 1, prerelease = None, build = None\<rparr>"

text \<open>
  Precedence: the triples are compared first; with equal triples a pre-release version is
  lower than the release; pre-release identifiers are compared from the left, numeric ones
  by value and below alphanumeric ones, alphanumeric ones in ASCII order, and a longer
  list of identifiers is higher when all earlier ones are equal. Build metadata is ignored.
\<close>

fun string_less :: "string \<Rightarrow> string \<Rightarrow> bool" where
  "string_less [] [] = False"
| "string_less [] (b # bs) = True"
| "string_less (a # as) [] = False"
| "string_less (a # as) (b # bs) =
     ((of_char a :: nat) < of_char b \<or> (a = b \<and> string_less as bs))"

definition ident_less :: "string \<Rightarrow> string \<Rightarrow> bool" where
  "ident_less a b =
     (if list_all is_digit a \<and> list_all is_digit b then nat_of_digits a < nat_of_digits b
      else if list_all is_digit a then True
      else if list_all is_digit b then False
      else string_less a b)"

fun idents_less :: "string list \<Rightarrow> string list \<Rightarrow> bool" where
  "idents_less [] [] = False"
| "idents_less [] (b # bs) = True"
| "idents_less (a # as) [] = False"
| "idents_less (a # as) (b # bs) =
     (if ident_less a b then True
      else if ident_less b a then False
      else idents_less as bs)"

definition version_less :: "version \<Rightarrow> version \<Rightarrow> bool" where
  "version_less v w =
     (if major v \<noteq> major w then major v < major w
      else if minor v \<noteq> minor w then minor v < minor w
      else if patch v \<noteq> patch w then patch v < patch w
      else (case (prerelease v, prerelease w) of
              (None, _) \<Rightarrow> False
            | (Some p, None) \<Rightarrow> True
            | (Some p, Some q) \<Rightarrow> idents_less (split_on CHR ''.'' p) (split_on CHR ''.'' q)))"

definition validate_version :: "string \<Rightarrow> bool" where
  "validate_version version = (semver_parse version \<noteq> None)"

subsection \<open>Commits: \<open>parse_commit_message\<close>, \<open>infer_commit_type\<close>, \<open>extract_pr_number\<close>, \<open>parse_commits\<close>\<close>

text \<open>
  A commit of the repository as GitPython hands it over, the raw dictionary that
  \<open>parse_commits\<close> builds from it (keys hash, subject, body, author), and the parsed
  dictionary. The record returned for an ignored commit carries the raw fields unchanged
  and has no scope and no pr.
\<close>

record git_commit =
  hexsha :: string
  message :: string
  author_name :: string

record raw_commit =
  raw_hash :: string
  raw_subject :: string
  raw_body :: string
  raw_author :: string

record parsed_commit =
  hash :: string
  commit_type :: string
  scope :: "string option"
  subject :: string
  body :: string
  author :: string
  pr :: "string option"

text \<open>
  \<open>re.match(r"^(\w+)(\([^)]+\))?: (.+)$", subject)\<close>. The first group is the longest run of
  word characters (a shorter run would be followed by a word character, which is neither a
  parenthesis nor a colon). The optional group is present exactly when an opening
  parenthesis, at least one character other than the closing one, and the closing
  parenthesis follow. The last group is the rest of the line, not empty, and \<open>$\<close> accepts
  the end of the text or one final newline. The result holds the type, the scope without
  its parentheses, and the description.
\<close>

definition match_conventional :: "string \<Rightarrow> (string \<times> string option \<times> string) option" where
  "match_conventional subj =
     (let type_name = takeWhile is_word subj;
          rest = dropWhile is_word subj;
          inner = takeWhile (\<lambda>c. c \<noteq> CHR '')'') (drop 1 rest);
          after = dropWhile (\<lambda>c. c \<noteq> CHR '')'') (drop 1 rest);
          scoped = (prefix ''('' rest \<and> inner \<noteq> [] \<and> after \<noteq> []);
          rest2 = (if scoped then drop 1 after else rest);
          description = takeWhile (\<lambda>c. c \<noteq> nl) (drop 2 rest2);
          tail = dropWhile (\<lambda>c. c \<noteq> nl) (drop 2 rest2)
      in if type_name \<noteq> [] \<and> prefix '': '' rest2 \<and> description \<noteq> [] \<and> (tail = [] \<or> tail = [nl])
         then Some (type_name, if scoped then Some inner else None, description)
         else None)"

text \<open>\<open>re.search(r"#(\d+)", text)\<close>: the digits after the first \<open>#\<close> that a digit follows.\<close>

fun search_pr :: "string \<Rightarrow> string option" where
  "search_pr [] = None"
| "search_pr (c # cs) =
     (if c = CHR ''#'' \<and> takeWhile is_digit cs \<noteq> [] then Some (takeWhile is_digit cs)
      else search_pr cs)"

definition extract_pr_number :: "string \<Rightarrow> string \<Rightarrow> string option" where
  "extract_pr_number subj bdy =
     (case search_pr subj of
        Some n \<Rightarrow> Some n
      | None \<Rightarrow> if bdy \<noteq> [] then search_pr bdy else None)"

definition infer_commit_type :: "string \<Rightarrow> string" where
  "infer_commit_type subj =
     (let low = lower subj;
          any_in = (\<lambda>words. list_ex (\<lambda>word. py_in word low) words)
      in if any_in [''fix'', ''bug'', ''patch''] then ''fix''
         else if any_in [''add'', ''new'', ''feat''] then ''feat''
         else if any_in [''update'', ''change'', ''modify''] then ''change''
         else if any_in [''remove'', ''delete''] then ''remove''
         else if any_in [''security'', ''vuln''] then ''security''
         else if py_in ''deprecate'' low then ''deprecate''
         else if any_in [''doc'', ''readme''] then ''docs''
         else if py_in ''test'' low then ''test''
         else if any_in [''chore'', ''build'', ''ci''] then ''chore''
         else ''change'')"

definition parse_commit_message :: "raw_commit \<Rightarrow> parsed_commit" where
  "parse_commit_message commit =
     (let subj = raw_subject commit;
          ignored = \<lparr>hash = raw_hash commit, commit_type = ''ignore'', scope = None,
                     subject = subj, body = raw_body commit, author = raw_author commit,
                     pr = None\<rparr>
      in if subj = [] then ignored
         else if prefix ''Merge '' subj then ignored
         else (case match_conventional subj of
                 Some (type_name, scope_name, description) \<Rightarrow>
                   \<lparr>hash = take 8 (raw_hash commit), commit_type = lower type_name,
                    scope = scope_name, subject = description, body = raw_body commit,
                    author = raw_author commit,
                    pr = extract_pr_number subj (raw_body commit)\<rparr>
               | None \<Rightarrow>
                   \<lparr>hash = take 8 (raw_hash commit), commit_type = infer_commit_type subj,
                    scope = None, subject = subj, body = raw_body commit,
                    author = raw_author commit,
                    pr = extract_pr_number subj (raw_body commit)\<rparr>))"

text \<open>
  The dictionary \<open>parse_commits\<close> builds for one commit: the subject is the first line of
  the message and the body the remaining lines joined again.
\<close>

definition raw_of_commit :: "git_commit \<Rightarrow> raw_commit" where
  "raw_of_commit c =
     (let parts = split_on nl (message c)
      in \<lparr>raw_hash = hexsha c,
          raw_subject = (if message c \<noteq> [] then (case parts of [] \<Rightarrow> [] | p # ps \<Rightarrow> p) else []),
          raw_body = (if message c \<noteq> [] \<and> length parts > 1 then join [nl] (tl parts) else []),
          raw_author = author_name c\<rparr>)"

text \<open>
  \<open>parse_commits\<close>: the history since the last tag (or the whole history) is the argument;
  \<open>None\<close> stands for any failure of the git query, which the function turns into the
  empty list.
\<close>

definition parse_commits :: "git_commit list option \<Rightarrow> parsed_commit list" where
  "parse_commits git =
     (case git of
        None \<Rightarrow> []
      | Some commits \<Rightarrow>
          filter (\<lambda>parsed. commit_type parsed \<noteq> ''ignore'')
            (map (\<lambda>c. parse_commit_message (raw_of_commit c)) commits))"

subsection \<open>Grouping: \<open>get_changes_from_git\<close>\<close>

type_synonym changes = "string \<rightharpoonup> string list"

definition empty_changes :: changes where
  "empty_changes =
     [''Added'' \<mapsto> [], ''Changed'' \<mapsto> [], ''Deprecated'' \<mapsto> [], ''Removed'' \<mapsto> [],
      ''Fixed'' \<mapsto> [], ''Security'' \<mapsto> []]"

text \<open>
  \<open>changes[category].append(entry)\<close>. The dictionary holds all six categories from its
  creation, so the lookup cannot fail; a missing key would leave the model unchanged.
\<close>

definition append_entry :: "string \<Rightarrow> string \<Rightarrow> changes \<Rightarrow> changes" where
  "append_entry category entry chg =
     (case chg category of
        Some items \<Rightarrow> chg(category \<mapsto> items @ [entry])
      | None \<Rightarrow> chg)"

definition render_entry :: "parsed_commit \<Rightarrow> string" where
  "render_entry commit =
     subject commit @
       (case pr commit of
          Some n \<Rightarrow> if n \<noteq> [] then '' [#'' @ n @ '']'' else []
        | None \<Rightarrow> [])"

definition route_commit :: "parsed_commit \<Rightarrow> changes \<Rightarrow> changes" where
  "route_commit commit chg =
     (let entry = render_entry commit; t = commit_type commit
      in if t \<in> set [''feat'', ''add''] then append_entry ''Added'' entry chg
         else if t \<in> set [''fix'', ''bugfix''] then append_entry ''Fixed'' entry chg
         else if t \<in> set [''refactor'', ''perf'', ''improve''] then append_entry ''Changed'' entry chg
         else if t = ''remove'' then append_entry ''Removed'' entry chg
         else if t = ''security'' then append_entry ''Security'' entry chg
         else if t = ''deprecate'' then append_entry ''Deprecated'' entry chg
         else if t \<notin> set [''docs'', ''test'', ''chore'', ''style''] then append_entry ''Changed'' entry chg
         else chg)"

definition group_commits :: "parsed_commit list \<Rightarrow> changes" where
  "group_commits commits = fold route_commit commits empty_changes"

definition get_changes_from_git :: "git_commit list option \<Rightarrow> changes option" where
  "get_changes_from_git git =
     (let commits = parse_commits git
      in if commits = [] then None else Some (group_commits commits))"

text \<open>
  The routing table in the words of the specification (section 4.2), to compare with
  \<open>route_commit\<close>: the category of a type, or \<open>None\<close> for a type that is dropped.
\<close>

definition spec_category :: "string \<Rightarrow> string option" where
  "spec_category t =
     (if t = ''feat'' \<or> t = ''add'' then Some ''Added''
      else if t = ''fix'' \<or> t = ''bugfix'' then Some ''Fixed''
      else if t = ''refactor'' \<or> t = ''perf'' \<or> t = ''improve'' then Some ''Changed''
      else if t = ''remove'' then Some ''Removed''
      else if t = ''security'' then Some ''Security''
      else if t = ''deprecate'' then Some ''Deprecated''
      else if t = ''docs'' \<or> t = ''test'' \<or> t = ''chore'' \<or> t = ''style'' then None
      else Some ''Changed'')"

subsection \<open>Version resolution: \<open>get_next_version\<close>\<close>

definition has_breaking :: "parsed_commit list \<Rightarrow> bool" where
  "has_breaking commits =
     list_ex (\<lambda>commit. py_in ''BREAKING'' (subject commit) \<or>
                        (body commit \<noteq> [] \<and> py_in ''BREAKING CHANGE'' (body commit)))
       commits"

definition has_features :: "parsed_commit list \<Rightarrow> bool" where
  "has_features commits = list_ex (\<lambda>commit. commit_type commit \<in> set [''feat'', ''add'']) commits"

text \<open>\<open>str(semver.VersionInfo.parse(s).bump())\<close>, raising \<open>ValueError\<close> when \<open>s\<close> does not parse.\<close>

definition parse_and_bump :: "(version \<Rightarrow> version) \<Rightarrow> string \<Rightarrow> error + string" where
  "parse_and_bump bump s =
     (case semver_parse s of
        None \<Rightarrow> Inl ValueError
      | Some v \<Rightarrow> Inr (version_str (bump v)))"

text \<open>
  The automatic branch (lines 91 to 111): the \<open>try\<close> block, and the handler that prints the
  warning and parses the current version once more.
\<close>

definition auto_bump :: "git_commit list option \<Rightarrow> string \<Rightarrow> (error + string) \<times> notice list" where
  "auto_bump git current_version =
     (let commits = parse_commits git;
          attempt =
            (case semver_parse current_version of
               None \<Rightarrow> Inl ValueError
             | Some current_ver \<Rightarrow>
                 if has_breaking commits then Inr (version_str (bump_major current_ver))
                 else if has_features commits then Inr (version_str (bump_minor current_ver))
                 else Inr (version_str (bump_patch current_ver)))
      in case attempt of
           Inr next_version \<Rightarrow> (Inr next_version, [])
         | Inl err \<Rightarrow> (parse_and_bump bump_patch current_version, [VersionFallbackWarning]))"

text \<open>
  The interactive branch (lines 68 to 89) reads its answers from the console: \<open>stdin\<close> is
  the list of lines still to be read, and \<open>input()\<close> on an exhausted console raises.
\<close>

definition interactive_bump :: "string list \<Rightarrow> string \<Rightarrow> error + string" where
  "interactive_bump stdin current_version =
     (case stdin of
        [] \<Rightarrow> Inl EOFError
      | line # remaining \<Rightarrow>
          (let choice = strip line
           in if choice = ''4'' then
                (case remaining of
                   [] \<Rightarrow> Inl EOFError
                 | line2 # _ \<Rightarrow>
                     if \<not> validate_version (strip line2) then Inl ValueError
                     else Inr (strip line2))
              else if choice = ''1'' then parse_and_bump bump_patch current_version
              else if choice = ''2'' then parse_and_bump bump_minor current_version
              else if choice = ''3'' then parse_and_bump bump_major current_version
              else Inl ValueError))"

definition get_next_version ::
  "git_commit list option \<Rightarrow> string list \<Rightarrow> string \<Rightarrow> bool \<Rightarrow> bool \<Rightarrow> (error + string) \<times> notice list" where
  "get_next_version git stdin current_version auto_mode force_mode =
     (let notices = (if force_mode \<and> \<not> auto_mode then [ForceModeNotice] else []);
          auto_mode' = (if force_mode \<and> \<not> auto_mode then True else auto_mode)
      in if \<not> auto_mode' \<and> \<not> force_mode
         then (interactive_bump stdin current_version, notices)
         else (case auto_bump git current_version of
                 (result, warnings) \<Rightarrow> (result, notices @ warnings)))"

subsection \<open>Formatting: \<open>format_changelog\<close>\<close>

record date =
  year :: nat
  month :: nat
  day :: nat

text \<open>\<open>date.isoformat()\<close>: \<open>YYYY-MM-DD\<close>, zero-padded.\<close>

definition isoformat :: "date \<Rightarrow> string" where
  "isoformat d =
     zfill 4 (string_of_nat (year d)) @ ''-'' @ zfill 2 (string_of_nat (month d)) @ ''-''
       @ zfill 2 (string_of_nat (day d))"

definition ordered_categories :: "string list" where
  "ordered_categories = [''Added'', ''Changed'', ''Deprecated'', ''Removed'', ''Fixed'', ''Security'']"

text \<open>The body of the loop over the categories: the text so far, and one category.\<close>

definition format_category :: "changes \<Rightarrow> string \<Rightarrow> string \<Rightarrow> string" where
  "format_category chg entry category =
     (case chg category of
        Some (item # items) \<Rightarrow>
          foldl (\<lambda>e i. e @ ''- '' @ i @ [nl]) (entry @ [nl] @ ''### '' @ category @ [nl, nl])
            (item # items)
      | _ \<Rightarrow> entry)"

definition format_changelog :: "changes \<Rightarrow> string \<Rightarrow> date \<Rightarrow> string" where
  "format_changelog chg version today =
     foldl (format_category chg) (''## ['' @ version @ ''] - '' @ isoformat today @ [nl])
       ordered_categories"

text \<open>
  The guard of \<open>update_changelog\<close> (line 188) that ends the run before anything is
  formatted: no dictionary, or no key with a non-empty list.
\<close>

definition no_changes_detected :: "changes option \<Rightarrow> bool" where
  "no_changes_detected chg =
     (case chg of
        None \<Rightarrow> True
      | Some m \<Rightarrow> \<not> (\<exists>key \<in> dom m. m key \<noteq> Some []))"

subsection \<open>The replacement templates and substitution of the \<open>re\<close> module\<close>

text \<open>
  \<open>re.sub\<close> reads its replacement as a template: a backslash starts a group reference
  (\<open>\1\<close>, \<open>\g<1>\<close>), an octal escape, one of the character escapes, or stays as it is before
  a character that is not an ASCII letter; it raises on a reference to a group the pattern
  does not have, on an unknown letter escape and on a final backslash. \<open>groups\<close> is the
  number of groups of the pattern; \<open>None\<close> stands for the exception.
\<close>

datatype piece = Literal string | GroupRef nat

definition octal_val :: "string \<Rightarrow> nat" where
  "octal_val s = foldl (\<lambda>n c. 8 * n + digit_val c) 0 s"

definition escapes :: "(char \<times> char) list" where
  "escapes = [(CHR ''a'', CHR 0x07), (CHR ''b'', CHR 0x08), (CHR ''f'', CHR 0x0C),
              (CHR ''n'', CHR 0x0A), (CHR ''r'', CHR 0x0D), (CHR ''t'', CHR 0x09),
              (CHR ''v'', CHR 0x0B), (backslash, backslash)]"

text \<open>
  One step of the template parser on the text after a backslash: the piece read and the
  number of characters consumed after the backslash.
\<close>

definition template_escape :: "nat \<Rightarrow> string \<Rightarrow> (piece \<times> nat) option" where
  "template_escape groups cs =
     (case cs of
        [] \<Rightarrow> None
      | d # ds \<Rightarrow>
          if d = CHR ''g'' then
            (let name = takeWhile (\<lambda>x. x \<noteq> CHR ''>'') (drop 1 ds);
                 after = dropWhile (\<lambda>x. x \<noteq> CHR ''>'') (drop 1 ds)
             in if prefix ''<'' ds \<and> name \<noteq> [] \<and> after \<noteq> [] \<and> list_all is_digit name \<and>
                   nat_of_digits name \<le> groups
                then Some (GroupRef (nat_of_digits name), length name + 3)
                else None)
          else if d = CHR ''0'' then
            (let oct = takeWhile is_octdigit (take 2 ds)
             in Some (Literal [char_of (octal_val oct mod 256)], length oct + 1))
          else if is_digit d then
            (case ds of
               e # es \<Rightarrow>
                 if is_digit e then
                   (if is_octdigit d \<and> is_octdigit e \<and> list_all is_octdigit (take 1 es) \<and> es \<noteq> []
                    then (if octal_val (d # e # take 1 es) > 255 then None
                          else Some (Literal [char_of (octal_val (d # e # take 1 es))], 3))
                    else if nat_of_digits [d, e] \<le> groups
                         then Some (GroupRef (nat_of_digits [d, e]), 2)
                         else None)
                 else if nat_of_digits [d] \<le> groups then Some (GroupRef (nat_of_digits [d]), 1)
                 else None
             | [] \<Rightarrow>
                 if nat_of_digits [d] \<le> groups then Some (GroupRef (nat_of_digits [d]), 1)
                 else None)
          else (case map_of escapes d of
                  Some x \<Rightarrow> Some (Literal [x], 1)
                | None \<Rightarrow> if is_ascii_letter d then None else Some (Literal [backslash, d], 1)))"

function parse_template :: "nat \<Rightarrow> string \<Rightarrow> piece list option" where
  "parse_template groups [] = Some []"
| "parse_template groups (c # cs) =
     (if c \<noteq> backslash then map_option ((#) (Literal [c])) (parse_template groups cs)
      else (case template_escape groups cs of
              None \<Rightarrow> None
            | Some (p, n) \<Rightarrow> map_option ((#) p) (parse_template groups (drop n cs))))"
  by pat_completeness auto
termination
  by (relation "measure (\<lambda>(groups, s). length s)") auto

text \<open>The groups of a match, group 0 first.\<close>

definition expand_template :: "piece list \<Rightarrow> string list \<Rightarrow> string" where
  "expand_template pieces groups =
     concat (map (\<lambda>p. case p of Literal s \<Rightarrow> s | GroupRef i \<Rightarrow> groups ! i) pieces)"

text \<open>
  \<open>re.sub\<close> for a pattern that matches no empty text: \<open>match_at\<close> gives the length of the
  match at the start of a text, and the scan goes on behind each match.
\<close>

function re_sub :: "(string \<Rightarrow> nat option) \<Rightarrow> (string \<Rightarrow> string) \<Rightarrow> string \<Rightarrow> string" where
  "re_sub match_at repl [] = []"
| "re_sub match_at repl (c # cs) =
     (case match_at (c # cs) of
        Some (Suc n) \<Rightarrow> repl (take (Suc n) (c # cs)) @ re_sub match_at repl (drop n cs)
      | _ \<Rightarrow> c # re_sub match_at repl cs)"
  by pat_completeness auto
termination
  by (relation "measure (\<lambda>(match_at, repl, s). length s)") auto

subsection \<open>The changelog file: \<open>update_version_links\<close> and \<open>update_changelog_file\<close>\<close>

text \<open>
  The working directory: the text of CHANGELOG.md if the file exists, and package.json,
  which is missing, cannot be read or decoded, or holds a JSON value. An object is the
  list of its members as \<open>json.loads\<close> returns them, looked up by key.
\<close>

datatype json =
    JNull
  | JBool bool
  | JNumber
  | JString string
  | JArray "json list"
  | JObject "(string \<times> json) list"

datatype package_json_file = NoPackageJson | BrokenPackageJson | PackageJson json

record files =
  changelog_md :: "string option"
  package_json :: package_json_file

definition default_repo_url :: string where
  "default_repo_url = ''https://github.com/org/repo''"

text \<open>The value bound to \<open>repo_url\<close> in lines 340 to 351, before it is normalised.\<close>

definition resolve_repo_url :: "package_json_file \<Rightarrow> error + json" where
  "resolve_repo_url pj =
     (case pj of
        NoPackageJson \<Rightarrow> Inr (JString default_repo_url)
      | BrokenPackageJson \<Rightarrow> Inl JSONError
      | PackageJson (JObject members) \<Rightarrow>
          (case map_of members ''repository'' of
             None \<Rightarrow> Inr (JString default_repo_url)
           | Some (JObject repository) \<Rightarrow>
               (case map_of repository ''url'' of
                  None \<Rightarrow> Inr (JString default_repo_url)
                | Some url \<Rightarrow> Inr url)
           | Some (JString url) \<Rightarrow> Inr (JString url)
           | Some _ \<Rightarrow> Inr (JString default_repo_url))
      | PackageJson _ \<Rightarrow> Inl AttributeError)"

definition normalize_repo_url :: "string \<Rightarrow> string" where
  "normalize_repo_url repo_url = py_replace ''git+'' [] (py_replace ''.git'' [] repo_url)"

text \<open>\<open>\[Unreleased\]: .+\<close> and \<open>(\[Unreleased\]: .+\n)\<close> at the start of a text.\<close>

definition unreleased_link_match :: "string \<Rightarrow> nat option" where
  "unreleased_link_match s =
     (let target = takeWhile (\<lambda>c. c \<noteq> nl) (drop 14 s)
      in if prefix ''[Unreleased]: '' s \<and> target \<noteq> [] then Some (14 + length target) else None)"

definition unreleased_line_match :: "string \<Rightarrow> nat option" where
  "unreleased_line_match s =
     (let target = takeWhile (\<lambda>c. c \<noteq> nl) (drop 14 s)
      in if prefix ''[Unreleased]: '' s \<and> target \<noteq> [] \<and> prefix [nl] (drop (14 + length target) s)
         then Some (14 + length target + 1)
         else None)"

text \<open>The body of the \<open>try\<close> block of \<open>update_version_links\<close>.\<close>

definition links_attempt :: "package_json_file \<Rightarrow> string \<Rightarrow> string \<Rightarrow> error + string" where
  "links_attempt pj content version =
     (case resolve_repo_url pj of
        Inl err \<Rightarrow> Inl err
      | Inr (JString url) \<Rightarrow>
          (let repo_url = normalize_repo_url url;
               new_unreleased_link = ''[Unreleased]: '' @ repo_url @ ''/compare/v'' @ version @ ''...HEAD'';
               version_link = ''['' @ version @ '']: '' @ repo_url @ ''/releases/tag/v'' @ version
           in if py_in ''[Unreleased]:'' content then
                (case parse_template 0 new_unreleased_link of
                   None \<Rightarrow> Inl ReError
                 | Some link_template \<Rightarrow>
                     (let updated_content =
                            re_sub unreleased_link_match (\<lambda>m. expand_template link_template [m]) content
                      in case parse_template 1 (backslash # ''1'' @ version_link @ [nl]) of
                           None \<Rightarrow> Inl ReError
                         | Some line_template \<Rightarrow>
                             Inr (re_sub unreleased_line_match
                                    (\<lambda>m. expand_template line_template [m, m]) updated_content)))
              else Inr (content @ [nl, nl] @ ''## Links'' @ [nl] @ new_unreleased_link @ [nl]
                          @ version_link @ [nl]))
      | Inr _ \<Rightarrow> Inl AttributeError)"

definition update_version_links :: "package_json_file \<Rightarrow> string \<Rightarrow> string \<Rightarrow> string \<times> notice list" where
  "update_version_links pj content version =
     (case links_attempt pj content version of
        Inr updated_content \<Rightarrow> (updated_content, [])
      | Inl err \<Rightarrow> (content, [LinksWarning err]))"

text \<open>
  \<open>re.search(r"## \[Unreleased\]\s*\n", text)\<close>: the end of the first match. At a position
  where the anchor text stands, \<open>\s*\<close> takes the whole run of white space behind it and
  gives characters back until a newline is the last one; without a newline in that run
  there is no match at this position.
\<close>

definition unreleased_match_end :: "string \<Rightarrow> nat option" where
  "unreleased_match_end s =
     (let ws = takeWhile is_space (drop 15 s)
      in if prefix ''## [Unreleased]'' s \<and> nl \<in> set ws
         then Some (15 + (length ws - length (takeWhile (\<lambda>c. c \<noteq> nl) (rev ws))))
         else None)"

fun search_unreleased :: "string \<Rightarrow> nat option" where
  "search_unreleased [] = None"
| "search_unreleased (c # cs) =
     (case unreleased_match_end (c # cs) of
        Some n \<Rightarrow> Some n
      | None \<Rightarrow> map_option Suc (search_unreleased cs))"

definition update_changelog_file ::
  "files \<Rightarrow> string \<Rightarrow> string \<Rightarrow> (error + unit) \<times> files \<times> notice list" where
  "update_changelog_file fs changelog_entry version =
     (case changelog_md fs of
        None \<Rightarrow> (Inl FileNotFoundError, fs, [])
      | Some current_content \<Rightarrow>
          (case search_unreleased current_content of
             None \<Rightarrow> (Inl ValueError, fs, [])
           | Some match_end \<Rightarrow>
               (let before_unreleased = take match_end current_content;
                    after_unreleased = drop match_end current_content;
                    new_content = before_unreleased @ [nl] @ changelog_entry @ [nl] @ after_unreleased
                in case update_version_links (package_json fs) new_content version of
                     (updated_content, notices) \<Rightarrow>
                       (Inr (), fs\<lparr>changelog_md := Some updated_content\<rparr>, notices))))"

subsection \<open>Notions used to state the properties of the formatted entry\<close>

text \<open>
  The items a category holds (\<open>changes.get(category)\<close>, nothing for a missing key), a
  category header line, and the check that every header line of a text is followed by a
  blank line and then by an item line.
\<close>

definition category_items :: "changes \<Rightarrow> string \<Rightarrow> string list" where
  "category_items chg category = (case chg category of Some items \<Rightarrow> items | None \<Rightarrow> [])"

definition is_header_line :: "string \<Rightarrow> bool" where
  "is_header_line line = prefix ''### '' line"

fun no_empty_section :: "string list \<Rightarrow> bool" where
  "no_empty_section [] = True"
| "no_empty_section (line # rest) =
     ((if is_header_line line
       then (case rest of blank # item # _ \<Rightarrow> blank = [] \<and> prefix ''- '' item | _ \<Rightarrow> False)
       else True)
      \<and> no_empty_section rest)"

text \<open>The lines one category contributes to the entry, and a text built from its lines.\<close>

definition section_lines :: "changes \<Rightarrow> string \<Rightarrow> string list" where
  "section_lines chg category =
     (if category_items chg category = [] then []
      else [[], ''### '' @ category, []] @ map (\<lambda>i. ''- '' @ i) (category_items chg category))"

definition unlines :: "string list \<Rightarrow> string" where
  "unlines ls = concat (map (\<lambda>l. l @ [nl]) ls)"

text \<open>The history of the scenario of section 8 of the specification: three commits.\<close>

definition login_scenario :: "git_commit list option" where
  "login_scenario =
     Some [\<lparr>hexsha = ''1a2b3c4d5e6f7a8b'', message = ''feat: add login'', author_name = ''dev''\<rparr>,
           \<lparr>hexsha = ''2b3c4d5e6f7a8b9c'', message = ''fix: crash on start #42'', author_name = ''dev''\<rparr>,
           \<lparr>hexsha = ''3c4d5e6f7a8b9c0d'', message = ''docs: typo'', author_name = ''dev''\<rparr>]"

section \<open>Auxiliary lemmas\<close>

subsection \<open>Decimal numerals and version strings\<close>

lemma string_of_nat_0: "string_of_nat 0 = ''0''"
  by (simp add: string_of_nat.simps digit_char_def)

lemma below_ten: "(n::nat) < 10 \<Longrightarrow> n \<in> {0, 1, 2, 3, 4, 5, 6, 7, 8, 9}"
  by auto

lemma digit_char_props:
  assumes "n < 10"
  shows "is_digit (digit_char n)" and "digit_val (digit_char n) = n"
    and "(digit_char n = CHR ''0'') = (n = 0)"
  using below_ten [OF assms] by (auto simp: digit_char_def is_digit_def digit_val_def)

lemma string_of_nat_digits: "list_all is_digit (string_of_nat n)"
proof (induction n rule: string_of_nat.induct)
  case (1 n)
  show ?case
  proof (cases "n < 10")
    case True
    then show ?thesis by (simp add: string_of_nat.simps [of n] digit_char_props)
  next
    case False
    with 1 show ?thesis by (simp add: string_of_nat.simps [of n] digit_char_props)
  qed
qed

lemma string_of_nat_nonempty: "string_of_nat n \<noteq> []"
  by (simp add: string_of_nat.simps [of n])

lemma nat_of_digits_snoc: "nat_of_digits (xs @ [d]) = 10 * nat_of_digits xs + digit_val d"
  by (simp add: nat_of_digits_def)

lemma nat_of_digits_string_of_nat: "nat_of_digits (string_of_nat n) = n"
proof (induction n rule: string_of_nat.induct)
  case (1 n)
  show ?case
  proof (cases "n < 10")
    case True
    then show ?thesis
      by (simp add: string_of_nat.simps [of n] nat_of_digits_def digit_char_props)
  next
    case False
    with 1 show ?thesis
      by (simp add: string_of_nat.simps [of n] nat_of_digits_snoc digit_char_props)
  qed
qed

lemma hd_string_of_nat: "0 < n \<Longrightarrow> hd (string_of_nat n) \<noteq> CHR ''0''"
proof (induction n rule: string_of_nat.induct)
  case (1 n)
  show ?case
  proof (cases "n < 10")
    case True
    with 1(2) show ?thesis by (simp add: string_of_nat.simps [of n] digit_char_props)
  next
    case False
    then have "0 < n div 10" by simp
    with 1(1) False have "hd (string_of_nat (n div 10)) \<noteq> CHR ''0''" by simp
    with False show ?thesis
      by (simp add: string_of_nat.simps [of n] string_of_nat_nonempty)
  qed
qed

lemma numeric_string_of_nat: "is_numeric_ident (string_of_nat n)"
proof (cases "n = 0")
  case True
  then show ?thesis by (simp add: is_numeric_ident_def string_of_nat_0)
next
  case False
  then show ?thesis
    by (simp add: is_numeric_ident_def string_of_nat_nonempty string_of_nat_digits hd_string_of_nat)
qed

lemma split_on_no_sep: "sep \<notin> set a \<Longrightarrow> split_on sep a = [a]"
  by (induction a) auto

lemma split_on_append_sep: "sep \<notin> set a \<Longrightarrow> split_on sep (a @ sep # rest) = a # split_on sep rest"
  by (induction a) auto

lemma digits_not_in:
  assumes "list_all is_digit a" and "\<not> is_digit c"
  shows "c \<notin> set a"
  using assms by (auto simp: list_all_iff)

lemma string_of_nat_free: "\<not> is_digit c \<Longrightarrow> c \<notin> set (string_of_nat n)"
  by (rule digits_not_in [OF string_of_nat_digits])

lemma not_digit_chars:
  "\<not> is_digit CHR ''.''" "\<not> is_digit CHR ''-''" "\<not> is_digit CHR ''+''" "\<not> is_digit nl"
  by (simp_all add: is_digit_def)

lemma semver_parse_release:
  assumes "prerelease w = None" and "build w = None"
  shows "semver_parse (version_str w) = Some w"
proof -
  define a where "a = string_of_nat (major w)"
  define b where "b = string_of_nat (minor w)"
  define c where "c = string_of_nat (patch w)"
  define s where "s = a @ CHR ''.'' # b @ CHR ''.'' # c"
  have free: "x \<notin> set a" "x \<notin> set b" "x \<notin> set c" if "\<not> is_digit x" for x
    using that by (simp_all add: a_def b_def c_def string_of_nat_free)
  have str: "version_str w = s"
    using assms by (simp add: version_str_def s_def a_def b_def c_def)
  have core: "\<forall>x \<in> set s. x \<noteq> CHR ''-'' \<and> x \<noteq> CHR ''+''"
    using free [OF not_digit_chars(2)] free [OF not_digit_chars(3)]
    unfolding s_def by auto
  have tw: "takeWhile (\<lambda>c. c \<noteq> CHR ''-'' \<and> c \<noteq> CHR ''+'') s = s"
    using core by (simp only: takeWhile_eq_all_conv)
  have dw: "dropWhile (\<lambda>c. c \<noteq> CHR ''-'' \<and> c \<noteq> CHR ''+'') s = []"
    using core by (simp only: dropWhile_eq_Nil_conv)
  have sp: "split_on CHR ''.'' s = [a, b, c]"
    unfolding s_def
    by (simp only: split_on_append_sep [OF free(1) [OF not_digit_chars(1)]]
        split_on_append_sep [OF free(2) [OF not_digit_chars(1)]]
        split_on_no_sep [OF free(3) [OF not_digit_chars(1)]])
  have num: "is_numeric_ident a" "is_numeric_ident b" "is_numeric_ident c"
    by (simp_all add: a_def b_def c_def numeric_string_of_nat)
  have val: "nat_of_digits a = major w" "nat_of_digits b = minor w" "nat_of_digits c = patch w"
    by (simp_all add: a_def b_def c_def nat_of_digits_string_of_nat)
  have w: "w = \<lparr>major = major w, minor = minor w, patch = patch w, prerelease = None, build = None\<rparr>"
    using assms by simp
  have "semver_parse s = Some \<lparr>major = major w, minor = minor w, patch = patch w, prerelease = None, build = None\<rparr>"
    unfolding semver_parse_def Let_def tw dw sp
    by (simp add: num val)
  with w str show ?thesis by simp
qed

subsection \<open>The signals of the version resolver\<close>

lemma has_breaking_iff:
  "has_breaking cs = (\<exists>c \<in> set cs. py_in ''BREAKING'' (subject c) \<or> py_in ''BREAKING CHANGE'' (body c))"
proof -
  have "py_in ''BREAKING CHANGE'' bd \<Longrightarrow> bd \<noteq> []" for bd by (cases bd) simp_all
  then show ?thesis unfolding has_breaking_def list_ex_iff by blast
qed

lemma has_features_iff:
  "has_features cs = (\<exists>c \<in> set cs. commit_type c = ''feat'' \<or> commit_type c = ''add'')"
  by (auto simp: has_features_def list_ex_iff)

subsection \<open>The anchor and the lines of a text\<close>

lemma prefix_py_in: "prefix a s \<Longrightarrow> py_in a s"
  by (cases s) auto

lemma split_on_first_line: "\<exists>ps. split_on sep s = takeWhile (\<lambda>x. x \<noteq> sep) s # ps"
  by (induction s) auto

lemma prefix_first_line:
  assumes "prefix a s" and "sep \<notin> set a"
  shows "prefix a (takeWhile (\<lambda>x. x \<noteq> sep) s)"
proof -
  from assms(1) obtain r where s: "s = a @ r" by (auto simp: prefix_def)
  have "takeWhile (\<lambda>x. x \<noteq> sep) (a @ r) = a @ takeWhile (\<lambda>x. x \<noteq> sep) r"
    using assms(2) by (intro takeWhile_append2) auto
  with s show ?thesis by simp
qed

lemma py_in_line:
  assumes "sep \<notin> set a"
  shows "py_in a s \<Longrightarrow> \<exists>line \<in> set (split_on sep s). py_in a line"
proof (induction s)
  case Nil
  then show ?case by simp
next
  case (Cons c s)
  show ?case
  proof (cases "prefix a (c # s)")
    case True
    obtain ps where ps: "split_on sep (c # s) = takeWhile (\<lambda>x. x \<noteq> sep) (c # s) # ps"
      using split_on_first_line by blast
    have "py_in a (takeWhile (\<lambda>x. x \<noteq> sep) (c # s))"
      using prefix_first_line [OF True assms] by (rule prefix_py_in)
    with ps show ?thesis by (metis list.set_intros(1))
  next
    case False
    with Cons.prems have "py_in a s" by simp
    with Cons.IH obtain l where l: "l \<in> set (split_on sep s)" "py_in a l" by blast
    obtain p ps where p: "split_on sep s = p # ps"
      using split_on_first_line by blast
    show ?thesis
    proof (cases "c = sep")
      case True
      with l show ?thesis by auto
    next
      case False
      with p have sp: "split_on sep (c # s) = (c # p) # ps" by simp
      from l p have "l = p \<or> l \<in> set ps" by simp
      then show ?thesis
      proof
        assume "l = p"
        with l(2) have "py_in a (c # p)" by simp
        with sp show ?thesis by simp
      next
        assume "l \<in> set ps"
        with l(2) sp show ?thesis by auto
      qed
    qed
  qed
qed

lemma unreleased_match_end_prefix: "unreleased_match_end s = Some n \<Longrightarrow> prefix ''## [Unreleased]'' s"
  by (simp add: unreleased_match_end_def Let_def split: if_splits)

lemma search_unreleased_py_in: "search_unreleased s = Some n \<Longrightarrow> py_in ''## [Unreleased]'' s"
proof (induction s arbitrary: n)
  case Nil
  then show ?case by simp
next
  case (Cons c s)
  show ?case
  proof (cases "unreleased_match_end (c # s)")
    case None
    with Cons.prems obtain m where "search_unreleased s = Some m" by auto
    with Cons.IH have "py_in ''## [Unreleased]'' s" by blast
    then show ?thesis by simp
  next
    case (Some m)
    then have "prefix ''## [Unreleased]'' (c # s)" by (rule unreleased_match_end_prefix)
    then show ?thesis by (rule prefix_py_in)
  qed
qed

lemma take_before_trailing:
  "take (length xs - length (takeWhile P (rev xs))) xs = rev (dropWhile P (rev xs))"
proof -
  have "rev xs = takeWhile P (rev xs) @ dropWhile P (rev xs)" by simp
  then have "xs = rev (dropWhile P (rev xs)) @ rev (takeWhile P (rev xs))"
    by (metis rev_append rev_rev_ident)
  moreover have "length (rev (dropWhile P (rev xs))) = length xs - length (takeWhile P (rev xs))"
    by (metis \<open>rev xs = takeWhile P (rev xs) @ dropWhile P (rev xs)\<close> add_diff_cancel_left'
        length_append length_rev)
  ultimately show ?thesis by (metis append_eq_conv_conj)
qed

lemma unreleased_match_end_shape:
  assumes "unreleased_match_end s = Some n"
  shows "\<exists>ws. take n s = ''## [Unreleased]'' @ ws @ [nl] \<and> list_all is_space ws"
proof -
  define r where "r = drop 15 s"
  define ws0 where "ws0 = takeWhile is_space r"
  define k where "k = length ws0 - length (takeWhile (\<lambda>c. c \<noteq> nl) (rev ws0))"
  from assms have p: "prefix ''## [Unreleased]'' s" and inws: "nl \<in> set ws0" and n: "n = 15 + k"
    by (auto simp: unreleased_match_end_def Let_def r_def ws0_def k_def split: if_splits)
  from p have s: "s = ''## [Unreleased]'' @ r"
    by (auto simp: prefix_def r_def)
  have r: "r = ws0 @ dropWhile is_space r" by (simp add: ws0_def)
  have kle: "k \<le> length ws0" by (simp add: k_def)
  define anchor where "anchor = ''## [Unreleased]''"
  have len: "length anchor = 15" by (simp add: anchor_def)
  have "take n (anchor @ r) = anchor @ take k r"
    by (simp add: n len)
  then have "take n s = ''## [Unreleased]'' @ take k r"
    using s by (simp add: anchor_def)
  also have "take k r = take k ws0"
    by (subst r) (simp add: kle)
  also have "take k ws0 = rev (dropWhile (\<lambda>c. c \<noteq> nl) (rev ws0))"
    unfolding k_def by (rule take_before_trailing)
  finally have t: "take n s = ''## [Unreleased]'' @ rev (dropWhile (\<lambda>c. c \<noteq> nl) (rev ws0))" .
  from inws have ne: "dropWhile (\<lambda>c. c \<noteq> nl) (rev ws0) \<noteq> []"
    by (simp add: dropWhile_eq_Nil_conv)
  then obtain h t' where d: "dropWhile (\<lambda>c. c \<noteq> nl) (rev ws0) = h # t'"
    by (cases "dropWhile (\<lambda>c. c \<noteq> nl) (rev ws0)") auto
  from hd_dropWhile [OF ne] d have h: "h = nl" by simp
  have "set t' \<subseteq> set ws0"
    using set_dropWhileD [of _ "\<lambda>c. c \<noteq> nl" "rev ws0"] d by auto
  moreover have "\<forall>c \<in> set ws0. is_space c"
    unfolding ws0_def by (auto dest: set_takeWhileD)
  ultimately have sp: "list_all is_space (rev t')"
    by (auto simp: list_all_iff)
  from t d h have "take n s = ''## [Unreleased]'' @ rev t' @ [nl]" by simp
  with sp show ?thesis by blast
qed

lemma search_unreleased_shape:
  "search_unreleased s = Some n \<Longrightarrow>
   \<exists>before ws. take n s = before @ ''## [Unreleased]'' @ ws @ [nl] \<and> list_all is_space ws"
proof (induction s arbitrary: n)
  case Nil
  then show ?case by simp
next
  case (Cons c s)
  show ?case
  proof (cases "unreleased_match_end (c # s)")
    case (Some m)
    with Cons.prems have "m = n" by simp
    with unreleased_match_end_shape [OF Some] show ?thesis
      by (metis append_Nil)
  next
    case None
    with Cons.prems obtain m where m: "search_unreleased s = Some m" "n = Suc m" by auto
    from Cons.IH [OF m(1)] obtain before ws
      where "take m s = before @ ''## [Unreleased]'' @ ws @ [nl]" "list_all is_space ws"
      by blast
    then have "take n (c # s) = (c # before) @ ''## [Unreleased]'' @ ws @ [nl] \<and> list_all is_space ws"
      using m(2) by simp
    then show ?thesis by blast
  qed
qed

lemma unreleased_match_end_occurs:
  assumes "list_all is_space ws"
  shows "unreleased_match_end (''## [Unreleased]'' @ ws @ nl # rest) \<noteq> None"
proof -
  have sp: "is_space nl" by (simp add: is_space_def)
  have "takeWhile is_space (ws @ nl # rest) = ws @ takeWhile is_space (nl # rest)"
    using assms by (intro takeWhile_append2) (simp add: list_all_iff)
  then have "nl \<in> set (takeWhile is_space (ws @ nl # rest))"
    using sp by simp
  then show ?thesis
    by (simp add: unreleased_match_end_def Let_def)
qed

lemma search_unreleased_at_match:
  "unreleased_match_end s \<noteq> None \<Longrightarrow> search_unreleased s \<noteq> None"
  by (cases s) (auto simp: unreleased_match_end_def)

lemma search_unreleased_occurs:
  assumes "list_all is_space ws"
  shows "search_unreleased (before @ ''## [Unreleased]'' @ ws @ nl # rest) \<noteq> None"
proof (induction before)
  case Nil
  show ?case
    using search_unreleased_at_match [OF unreleased_match_end_occurs [OF assms, of rest]] by simp
next
  case (Cons c before)
  then show ?case by (simp split: option.splits)
qed

subsection \<open>Grouping by type\<close>

lemma append_entry_at:
  "append_entry category entry chg k =
     (if k = category then map_option (\<lambda>items. items @ [entry]) (chg k) else chg k)"
  by (simp add: append_entry_def split: option.splits)

lemma route_commit_at:
  "route_commit commit chg k =
     (if spec_category (commit_type commit) = Some k
      then map_option (\<lambda>items. items @ [render_entry commit]) (chg k) else chg k)"
  by (simp add: route_commit_def spec_category_def append_entry_at Let_def)

lemma fold_route_commit_at:
  "fold route_commit commits chg k =
     map_option (\<lambda>items. items @ map render_entry
                    (filter (\<lambda>c. spec_category (commit_type c) = Some k) commits)) (chg k)"
proof (induction commits arbitrary: chg)
  case Nil
  show ?case by (simp add: option.map_ident)
next
  case (Cons c commits)
  have "fold route_commit (c # commits) chg k = fold route_commit commits (route_commit c chg) k"
    by simp
  also have "\<dots> = map_option (\<lambda>items. items @ map render_entry
                    (filter (\<lambda>c. spec_category (commit_type c) = Some k) commits))
                  (route_commit c chg k)"
    by (rule Cons.IH)
  also have "\<dots> = map_option (\<lambda>items. items @ map render_entry
                    (filter (\<lambda>c. spec_category (commit_type c) = Some k) (c # commits))) (chg k)"
    by (cases "chg k") (simp_all add: route_commit_at)
  finally show ?case .
qed

lemma empty_changes_at: "category \<in> set ordered_categories \<Longrightarrow> empty_changes category = Some []"
  by (auto simp: ordered_categories_def empty_changes_def)

lemma group_commits_at:
  "category \<in> set ordered_categories \<Longrightarrow>
   group_commits commits category =
     Some (map render_entry (filter (\<lambda>c. spec_category (commit_type c) = Some category) commits))"
  by (simp add: group_commits_def fold_route_commit_at empty_changes_at)

subsection \<open>The lines of a formatted entry\<close>

lemma format_category_empty:
  "chg category = None \<or> chg category = Some [] \<Longrightarrow> format_category chg entry category = entry"
  by (auto simp: format_category_def)

lemma foldl_format_category_empty:
  "\<forall>category \<in> set categories. chg category = None \<or> chg category = Some []
   \<Longrightarrow> foldl (format_category chg) entry categories = entry"
  by (induction categories arbitrary: entry) (simp_all add: format_category_empty)

lemma foldl_items:
  "foldl (\<lambda>e i. e @ CHR ''-'' # CHR '' '' # i @ [nl]) entry items
     = entry @ concat (map (\<lambda>i. CHR ''-'' # CHR '' '' # i @ [nl]) items)"
  by (induction items arbitrary: entry) simp_all

lemma format_category_lines:
  "format_category chg entry category = entry @ unlines (section_lines chg category)"
proof (cases "chg category")
  case None
  then show ?thesis
    by (simp add: format_category_def section_lines_def category_items_def unlines_def)
next
  case (Some items)
  then show ?thesis
    by (cases items)
       (simp_all add: format_category_def section_lines_def category_items_def unlines_def
          foldl_items comp_def)
qed

lemma unlines_append: "unlines (xs @ ys) = unlines xs @ unlines ys"
  by (simp add: unlines_def)

lemma foldl_format_category_lines:
  "foldl (format_category chg) entry categories
     = entry @ unlines (concat (map (section_lines chg) categories))"
proof (induction categories arbitrary: entry)
  case Nil
  show ?case by (simp add: unlines_def)
next
  case (Cons c categories)
  have "foldl (format_category chg) entry (c # categories)
          = foldl (format_category chg) (format_category chg entry c) categories"
    by simp
  also have "\<dots> = format_category chg entry c @ unlines (concat (map (section_lines chg) categories))"
    by (rule Cons.IH)
  also have "\<dots> = entry @ unlines (concat (map (section_lines chg) (c # categories)))"
    by (simp add: format_category_lines unlines_append)
  finally show ?case .
qed

lemma split_on_unlines:
  "\<forall>l \<in> set ls. nl \<notin> set l \<Longrightarrow> split_on nl (unlines ls) = ls @ [[]]"
  by (induction ls) (simp_all add: unlines_def split_on_append_sep)


lemma zfill_digits: "list_all is_digit s \<Longrightarrow> list_all is_digit (zfill w s)"
proof -
  have zero: "is_digit CHR ''0''" by (simp add: is_digit_def)
  have "list_all is_digit (replicate n CHR ''0'')" for n
    by (induction n) (simp_all add: zero)
  then show "list_all is_digit s \<Longrightarrow> list_all is_digit (zfill w s)"
    by (simp add: zfill_def)
qed

lemma isoformat_no_newline: "nl \<notin> set (isoformat d)"
proof -
  have "nl \<notin> set (zfill w (string_of_nat n))" for w n
    by (rule digits_not_in [OF zfill_digits [OF string_of_nat_digits] not_digit_chars(4)])
  then show ?thesis by (simp add: isoformat_def)
qed

lemma header_lines_of_section:
  "filter is_header_line (section_lines chg category)
     = (if category_items chg category = [] then [] else [''### '' @ category])"
  by (simp add: section_lines_def is_header_line_def filter_empty_conv)

lemma header_lines_of_sections:
  "filter is_header_line (concat (map (section_lines chg) categories))
     = map (\<lambda>category. ''### '' @ category) (filter (\<lambda>category. category_items chg category \<noteq> []) categories)"
  by (induction categories) (simp_all add: header_lines_of_section)

lemma no_empty_section_skip:
  "\<forall>l \<in> set ls. \<not> is_header_line l \<Longrightarrow> no_empty_section (ls @ rest) = no_empty_section rest"
  by (induction ls) simp_all

lemma no_empty_section_section:
  "no_empty_section (section_lines chg category @ rest) = no_empty_section rest"
proof (cases "category_items chg category")
  case Nil
  then show ?thesis by (simp add: section_lines_def)
next
  case (Cons item items)
  have skip: "no_empty_section (map (\<lambda>i. ''- '' @ i) (item # items) @ rest) = no_empty_section rest"
    by (rule no_empty_section_skip) (simp add: is_header_line_def)
  have "section_lines chg category @ rest
          = [] # (''### '' @ category) # [] # (map (\<lambda>i. ''- '' @ i) (item # items) @ rest)"
    using Cons by (simp add: section_lines_def)
  then show ?thesis using skip by (simp add: is_header_line_def)
qed

lemma no_empty_section_sections:
  "no_empty_section (concat (map (section_lines chg) categories) @ rest) = no_empty_section rest"
  by (induction categories) (simp_all add: no_empty_section_section)


lemma format_changelog_lines:
  assumes "nl \<notin> set version"
    and "\<forall>category \<in> set ordered_categories. \<forall>item \<in> set (category_items chg category). nl \<notin> set item"
  shows "split_on nl (format_changelog chg version today)
           = (''## ['' @ version @ ''] - '' @ isoformat today)
               # concat (map (section_lines chg) ordered_categories) @ [[]]"
proof -
  let ?hdr = "''## ['' @ version @ ''] - '' @ isoformat today"
  let ?body = "concat (map (section_lines chg) ordered_categories)"
  have shape: "format_changelog chg version today = unlines (?hdr # ?body)"
    by (simp add: format_changelog_def foldl_format_category_lines unlines_def)
  have hdr: "nl \<notin> set ?hdr"
    using assms(1) isoformat_no_newline by simp
  have cat: "nl \<notin> set category" if "category \<in> set ordered_categories" for category
    using that by (auto simp: ordered_categories_def)
  have "nl \<notin> set l" if l: "l \<in> set (section_lines chg category)"
    and c: "category \<in> set ordered_categories" for l category
  proof -
    from l have "l = [] \<or> l = ''### '' @ category
        \<or> l \<in> (\<lambda>i. ''- '' @ i) ` set (category_items chg category)"
      by (simp add: section_lines_def split: if_splits) blast
    then consider "l = []" | "l = ''### '' @ category"
      | i where "i \<in> set (category_items chg category)" "l = ''- '' @ i"
      by blast
    then show ?thesis
    proof cases
      case 1
      then show ?thesis by simp
    next
      case 2
      with cat [OF c] show ?thesis by simp
    next
      case 3
      from assms(2) c 3(1) have "nl \<notin> set i" by blast
      with 3(2) show ?thesis by simp
    qed
  qed
  note section_free = this
  have "\<forall>l \<in> set ?body. nl \<notin> set l"
  proof
    fix l
    assume "l \<in> set ?body"
    then obtain category where "category \<in> set ordered_categories"
      and "l \<in> set (section_lines chg category)"
      by auto
    then show "nl \<notin> set l" by (rule section_free [rotated])
  qed
  with hdr have "\<forall>l \<in> set (?hdr # ?body). nl \<notin> set l" by simp
  then have "split_on nl (unlines (?hdr # ?body)) = (?hdr # ?body) @ [[]]"
    by (rule split_on_unlines)
  with shape show ?thesis by simp
qed


section \<open>The claims\<close>

text \<open>
  C1. In automatic mode the single commit with the subject "BREAKING: remove old API" and the
  current version 2.0.0 should resolve to 3.0.0. The parser reads \<open>BREAKING\<close> as the
  conventional type and keeps only "remove old API" as the subject, so the test for
  \<open>BREAKING\<close> in the subject of the parsed record fails and the version gets a patch bump.
  The subject "BREAKING CHANGE: remove old API", which the conventional pattern does not
  match, keeps its text and gets the major bump.
\<close>

theorem breaking_prefix_subject_gets_patch_bump:
  "parse_commits (Some [\<lparr>hexsha = ''4f2a9c1d7e3b5a60'', message = ''BREAKING: remove old API'',
                         author_name = ''dev''\<rparr>])
     = [\<lparr>hash = ''4f2a9c1d'', commit_type = ''breaking'', scope = None, subject = ''remove old API'',
         body = [], author = ''dev'', pr = None\<rparr>]
   \<and> get_next_version (Some [\<lparr>hexsha = ''4f2a9c1d7e3b5a60'', message = ''BREAKING: remove old API'',
                               author_name = ''dev''\<rparr>])
        [] ''2.0.0'' True False = (Inr ''2.0.1'', [])
   \<and> get_next_version (Some [\<lparr>hexsha = ''4f2a9c1d7e3b5a60'', message = ''BREAKING CHANGE: remove old API'',
                               author_name = ''dev''\<rparr>])
        [] ''2.0.0'' True False = (Inr ''3.0.0'', [])"
  by code_simp

text \<open>
  C2, as stated: for every current version string the automatic mode returns a bumped
  version, and a version that does not parse gives a patch bump and a warning without
  raising. For the version string "1.2" the warning is printed and the handler, which
  parses the same string again, raises.
\<close>

theorem unparsable_version_raises:
  "get_next_version (Some []) [] ''1.2'' True False = (Inl ValueError, [VersionFallbackWarning])"
  by code_simp

text \<open>
  C2, amended: in automatic mode, for every current version string that parses as a
  semantic version and every history, the next version is the major bump (major plus one,
  minor and patch zero) if the subject of a classified change contains \<open>BREAKING\<close> or its
  body contains \<open>BREAKING CHANGE\<close>; else the minor bump (minor plus one, patch zero) if a
  change has the type feat or add; else the patch bump; and no fallback warning is printed.
\<close>

theorem auto_version_rule:
  assumes "semver_parse current_version = Some v" and "auto_mode \<or> force_mode"
  shows "fst (get_next_version git stdin current_version auto_mode force_mode) =
           Inr (if \<exists>c \<in> set (parse_commits git). py_in ''BREAKING'' (subject c) \<or> py_in ''BREAKING CHANGE'' (body c)
                then string_of_nat (major v + 1) @ ''.0.0''
                else if \<exists>c \<in> set (parse_commits git). commit_type c = ''feat'' \<or> commit_type c = ''add''
                then string_of_nat (major v) @ ''.'' @ string_of_nat (minor v + 1) @ ''.0''
                else string_of_nat (major v) @ ''.'' @ string_of_nat (minor v) @ ''.'' @ string_of_nat (patch v + 1))
         \<and> VersionFallbackWarning \<notin> set (snd (get_next_version git stdin current_version auto_mode force_mode))"
  using assms
  by (auto simp: get_next_version_def auto_bump_def has_breaking_iff has_features_iff version_str_def
      bump_major_def bump_minor_def bump_patch_def string_of_nat_0)

theorem auto_version_rule_witness:
  "semver_parse ''2.4.6'' = Some \<lparr>major = 2, minor = 4, patch = 6, prerelease = None, build = None\<rparr>
   \<and> fst (get_next_version (Some [\<lparr>hexsha = ''4f2a9c1d7e3b5a60'', message = ''feat: add login'',
                                    author_name = ''dev''\<rparr>]) [] ''2.4.6'' True False) = Inr ''2.5.0''
   \<and> VersionFallbackWarning \<notin> set (snd (get_next_version
          (Some [\<lparr>hexsha = ''4f2a9c1d7e3b5a60'', message = ''feat: add login'', author_name = ''dev''\<rparr>])
          [] ''2.4.6'' True False))"
proof -
  have p: "semver_parse ''2.4.6'' = Some \<lparr>major = 2, minor = 4, patch = 6, prerelease = None, build = None\<rparr>"
    by code_simp
  have c: "parse_commits (Some [\<lparr>hexsha = ''4f2a9c1d7e3b5a60'', message = ''feat: add login'',
                                  author_name = ''dev''\<rparr>])
      = [\<lparr>hash = ''4f2a9c1d'', commit_type = ''feat'', scope = None, subject = ''add login'',
         body = [], author = ''dev'', pr = None\<rparr>]"
    by code_simp
  have s: "string_of_nat 2 = ''2''" "string_of_nat 5 = ''5''"
    by (simp_all add: string_of_nat.simps digit_char_def)
  show ?thesis
    using auto_version_rule [OF p, of True False
        "Some [\<lparr>hexsha = ''4f2a9c1d7e3b5a60'', message = ''feat: add login'', author_name = ''dev''\<rparr>]" "[]"] p
    by (simp add: c s)
qed

text \<open>
  C5. A raw commit whose subject is empty or starts with "Merge " is classified as
  \<open>ignore\<close>; taking such a commit out of the history changes neither the parsed commits,
  nor the category buckets, nor the resolved version.
\<close>

theorem ignored_commits_excluded:
  assumes "raw_subject r = [] \<or> prefix ''Merge '' (raw_subject r)"
  shows "commit_type (parse_commit_message r) = ''ignore''
       \<and> (raw_of_commit c = r \<longrightarrow>
            parse_commits (Some (before @ c # after)) = parse_commits (Some (before @ after))
          \<and> get_changes_from_git (Some (before @ c # after)) = get_changes_from_git (Some (before @ after))
          \<and> get_next_version (Some (before @ c # after)) stdin current_version auto_mode force_mode
              = get_next_version (Some (before @ after)) stdin current_version auto_mode force_mode)"
proof -
  have t: "commit_type (parse_commit_message r) = ''ignore''"
    using assms by (auto simp: parse_commit_message_def Let_def)
  have "parse_commits (Some (before @ c # after)) = parse_commits (Some (before @ after))"
    if "raw_of_commit c = r"
    using that t by (simp add: parse_commits_def)
  then show ?thesis
    using t by (simp add: get_changes_from_git_def get_next_version_def auto_bump_def)
qed

theorem ignored_commits_excluded_witness:
  "prefix ''Merge '' (raw_subject (raw_of_commit \<lparr>hexsha = ''9e8d7c6b5a4f3e2d'', message = ''Merge branch main'', author_name = ''dev''\<rparr>))
   \<and> commit_type (parse_commit_message (raw_of_commit \<lparr>hexsha = ''9e8d7c6b5a4f3e2d'', message = ''Merge branch main'', author_name = ''dev''\<rparr>)) = ''ignore''
   \<and> parse_commits (Some ([] @ \<lparr>hexsha = ''9e8d7c6b5a4f3e2d'', message = ''Merge branch main'', author_name = ''dev''\<rparr> # [])) = []"
proof -
  have h: "prefix ''Merge '' (raw_subject (raw_of_commit \<lparr>hexsha = ''9e8d7c6b5a4f3e2d'', message = ''Merge branch main'', author_name = ''dev''\<rparr>))"
    by code_simp
  have e: "parse_commits (Some ([] @ [])) = []" by code_simp
  show ?thesis
    using ignored_commits_excluded [OF disjI2 [OF h], of "\<lparr>hexsha = ''9e8d7c6b5a4f3e2d'', message = ''Merge branch main'', author_name = ''dev''\<rparr>" "[]" "[]"] h e
    by simp
qed

text \<open>
  C9. For every version that parses, the patch bump is higher than the version, the minor
  bump higher than the patch bump and the major bump higher than the minor bump in the
  precedence of semantic versioning; the version the automatic mode resolves parses again
  and is higher than the current one.
\<close>

theorem version_bump_monotonic:
  assumes "semver_parse current_version = Some v"
  shows "version_less v (bump_patch v) \<and> version_less (bump_patch v) (bump_minor v)
       \<and> version_less (bump_minor v) (bump_major v)
       \<and> (auto_mode \<or> force_mode \<longrightarrow>
            (\<exists>next_version. fst (get_next_version git stdin current_version auto_mode force_mode)
                               = Inr (version_str next_version)
                           \<and> semver_parse (version_str next_version) = Some next_version
                           \<and> version_less v next_version))"
proof -
  have order: "version_less v (bump_patch v)" "version_less (bump_patch v) (bump_minor v)"
    "version_less (bump_minor v) (bump_major v)" "version_less v (bump_minor v)"
    "version_less v (bump_major v)"
    by (simp_all add: version_less_def bump_patch_def bump_minor_def bump_major_def)
  have parse: "semver_parse (version_str (bump_patch v)) = Some (bump_patch v)"
    "semver_parse (version_str (bump_minor v)) = Some (bump_minor v)"
    "semver_parse (version_str (bump_major v)) = Some (bump_major v)"
    by (rule semver_parse_release; simp add: bump_patch_def bump_minor_def bump_major_def)+
  define next_version where "next_version =
    (if has_breaking (parse_commits git) then bump_major v
     else if has_features (parse_commits git) then bump_minor v else bump_patch v)"
  have res: "fst (get_next_version git stdin current_version auto_mode force_mode)
               = Inr (version_str next_version)" if "auto_mode \<or> force_mode"
    using that assms by (auto simp: get_next_version_def auto_bump_def Let_def next_version_def)
  have "semver_parse (version_str next_version) = Some next_version" "version_less v next_version"
    using order parse by (simp_all add: next_version_def)
  with res order show ?thesis by blast
qed

theorem version_bump_monotonic_witness:
  "semver_parse ''2.4.6'' = Some \<lparr>major = 2, minor = 4, patch = 6, prerelease = None, build = None\<rparr>
   \<and> version_less \<lparr>major = 2, minor = 4, patch = 6, prerelease = None, build = None\<rparr>
        \<lparr>major = 2, minor = 4, patch = 7, prerelease = None, build = None\<rparr>
   \<and> version_less \<lparr>major = 2, minor = 4, patch = 7, prerelease = None, build = None\<rparr>
        \<lparr>major = 2, minor = 5, patch = 0, prerelease = None, build = None\<rparr>
   \<and> version_less \<lparr>major = 2, minor = 5, patch = 0, prerelease = None, build = None\<rparr>
        \<lparr>major = 3, minor = 0, patch = 0, prerelease = None, build = None\<rparr>
   \<and> (\<exists>next_version. fst (get_next_version (Some []) [] ''2.4.6'' True False) = Inr (version_str next_version)
         \<and> semver_parse (version_str next_version) = Some next_version
         \<and> version_less \<lparr>major = 2, minor = 4, patch = 6, prerelease = None, build = None\<rparr> next_version)"
proof -
  have p: "semver_parse ''2.4.6'' = Some \<lparr>major = 2, minor = 4, patch = 6, prerelease = None, build = None\<rparr>"
    by code_simp
  show ?thesis
    using version_bump_monotonic [OF p, of True False "Some []" "[]"] p
    by (simp add: bump_patch_def bump_minor_def bump_major_def)
qed

text \<open>
  C3, as stated: a changelog text with no line matching the anchor "## [Unreleased]" makes
  the write fail and nothing is written. The pattern is searched anywhere in the text, also
  inside a line: in a text whose only such line is "### [Unreleased]" no line is the anchor or
  starts with it, yet the pattern is found inside that line, the entry is inserted behind it
  and the file is written.
\<close>

theorem anchor_inside_line_is_matched:
  "list_all (\<lambda>line. \<not> prefix ''## [Unreleased]'' line)
     (split_on nl ''# Changelog\<newline>\<newline>### [Unreleased]\<newline>\<newline>## [1.0.0] - 2024-01-01\<newline>'')
   \<and> fst (update_changelog_file
            \<lparr>changelog_md = Some ''# Changelog\<newline>\<newline>### [Unreleased]\<newline>\<newline>## [1.0.0] - 2024-01-01\<newline>'',
             package_json = NoPackageJson\<rparr>
            ''## [1.1.0] - 2026-11-03\<newline>'' ''1.1.0'') = Inr ()
   \<and> map_option (split_on nl) (changelog_md (fst (snd (update_changelog_file
            \<lparr>changelog_md = Some ''# Changelog\<newline>\<newline>### [Unreleased]\<newline>\<newline>## [1.0.0] - 2024-01-01\<newline>'',
             package_json = NoPackageJson\<rparr>
            ''## [1.1.0] - 2026-11-03\<newline>'' ''1.1.0''))))
       = Some [''# Changelog'', [], ''### [Unreleased]'', [], [], ''## [1.1.0] - 2026-11-03'', [],
               ''## [1.0.0] - 2024-01-01'', [], [], ''## Links'',
               ''[Unreleased]: https://github.com/org/repo/compare/v1.1.0...HEAD'',
               ''[1.1.0]: https://github.com/org/repo/releases/tag/v1.1.0'', []]"
  by code_simp


text \<open>
  C3, amended: for every changelog text, \<open>update_changelog_file\<close> fails with the structure
  error (the \<open>ValueError\<close> of the missing section) and writes nothing if and only if the
  anchor text "## [Unreleased]" followed by optional white space and a newline occurs nowhere
  in the text, at the start of a line or inside one; where it occurs the call does not
  fail. In particular it fails, and the files are as before, for every text in which no
  line contains the anchor text.
\<close>

theorem anchor_pattern_decides_failure:
  assumes "changelog_md fs = Some doc"
  shows "(update_changelog_file fs changelog_entry version = (Inl ValueError, fs, []))
           = (\<not> (\<exists>before ws rest. doc = before @ ''## [Unreleased]'' @ ws @ [nl] @ rest
                                     \<and> list_all is_space ws))
       \<and> ((\<exists>before ws rest. doc = before @ ''## [Unreleased]'' @ ws @ [nl] @ rest
                              \<and> list_all is_space ws)
            \<longrightarrow> fst (update_changelog_file fs changelog_entry version) = Inr ())
       \<and> ((\<forall>line \<in> set (split_on nl doc). \<not> py_in ''## [Unreleased]'' line)
            \<longrightarrow> update_changelog_file fs changelog_entry version = (Inl ValueError, fs, []))"
proof -
  let ?occurs = "\<exists>before ws rest. doc = before @ ''## [Unreleased]'' @ ws @ [nl] @ rest
                                   \<and> list_all is_space ws"
  have found: "search_unreleased doc \<noteq> None" if ?occurs
    using that search_unreleased_occurs by auto
  have shape: ?occurs if "search_unreleased doc = Some n" for n
  proof -
    from search_unreleased_shape [OF that] obtain before ws
      where t: "take n doc = before @ ''## [Unreleased]'' @ ws @ [nl]" and ws: "list_all is_space ws"
      by blast
    have "doc = take n doc @ drop n doc" by simp
    with t have "doc = before @ ''## [Unreleased]'' @ ws @ [nl] @ drop n doc"
      by (metis append.assoc)
    with ws show ?thesis by blast
  qed
  have fails: "update_changelog_file fs changelog_entry version = (Inl ValueError, fs, [])"
    if "search_unreleased doc = None"
    using that assms by (simp add: update_changelog_file_def)
  have writes: "fst (update_changelog_file fs changelog_entry version) = Inr ()"
    if "search_unreleased doc = Some n" for n
    using that assms by (simp add: update_changelog_file_def Let_def split: prod.splits)
  have iff: "(update_changelog_file fs changelog_entry version = (Inl ValueError, fs, [])) = (\<not> ?occurs)"
  proof (cases "search_unreleased doc")
    case None
    with found fails show ?thesis by blast
  next
    case (Some n)
    from writes [OF Some] have "update_changelog_file fs changelog_entry version \<noteq> (Inl ValueError, fs, [])"
      by auto
    with shape [OF Some] show ?thesis by blast
  qed
  have ok: "?occurs \<longrightarrow> fst (update_changelog_file fs changelog_entry version) = Inr ()"
    using found writes by blast
  have absent: "(\<forall>line \<in> set (split_on nl doc). \<not> py_in ''## [Unreleased]'' line)
            \<longrightarrow> update_changelog_file fs changelog_entry version = (Inl ValueError, fs, [])"
  proof
    assume no_line: "\<forall>line \<in> set (split_on nl doc). \<not> py_in ''## [Unreleased]'' line"
    have "search_unreleased doc = None"
    proof (rule ccontr)
      assume "search_unreleased doc \<noteq> None"
      then obtain n where "search_unreleased doc = Some n" by auto
      then have "py_in ''## [Unreleased]'' doc" by (rule search_unreleased_py_in)
      moreover have "nl \<notin> set ''## [Unreleased]''" by simp
      ultimately have "\<exists>line \<in> set (split_on nl doc). py_in ''## [Unreleased]'' line"
        using py_in_line by blast
      with no_line show False by blast
    qed
    then show "update_changelog_file fs changelog_entry version = (Inl ValueError, fs, [])"
      by (rule fails)
  qed
  from iff ok absent show ?thesis by blast
qed

theorem anchor_pattern_decides_failure_witness:
  "update_changelog_file
      \<lparr>changelog_md = Some ''# Changelog\<newline>\<newline>## [Unreleased] - wip\<newline>- first\<newline>'', package_json = NoPackageJson\<rparr>
      ''## [1.1.0] - 2026-11-03\<newline>'' ''1.1.0''
     = (Inl ValueError,
        \<lparr>changelog_md = Some ''# Changelog\<newline>\<newline>## [Unreleased] - wip\<newline>- first\<newline>'', package_json = NoPackageJson\<rparr>, [])
   \<and> \<not> (\<exists>before ws rest.
           ''# Changelog\<newline>\<newline>## [Unreleased] - wip\<newline>- first\<newline>'' = before @ ''## [Unreleased]'' @ ws @ [nl] @ rest
           \<and> list_all is_space ws)"
proof -
  let ?fs = "\<lparr>changelog_md = Some ''# Changelog\<newline>\<newline>## [Unreleased] - wip\<newline>- first\<newline>'', package_json = NoPackageJson\<rparr>"
  have d: "changelog_md ?fs = Some ''# Changelog\<newline>\<newline>## [Unreleased] - wip\<newline>- first\<newline>''"
    by simp
  have e: "update_changelog_file ?fs ''## [1.1.0] - 2026-11-03\<newline>'' ''1.1.0'' = (Inl ValueError, ?fs, [])"
    by code_simp
  from anchor_pattern_decides_failure [OF d, of "''## [1.1.0] - 2026-11-03\<newline>''" "''1.1.0''"] e
  have "\<not> (\<exists>before ws rest.
           ''# Changelog\<newline>\<newline>## [Unreleased] - wip\<newline>- first\<newline>'' = before @ ''## [Unreleased]'' @ ws @ [nl] @ rest
           \<and> list_all is_space ws)"
    by blast
  with e show ?thesis by blast
qed

text \<open>
  C4, as stated: the commits "feat: add login", "fix: crash on start #42" and "docs: typo"
  should give the Fixed item "crash on start [#42]". The parser keeps the reference in the
  subject and the renderer appends it once more, so the item is "crash on start #42 [#42]".
\<close>

theorem scenario_fixed_item_keeps_reference:
  "get_changes_from_git login_scenario \<noteq> None
   \<and> the (get_changes_from_git login_scenario) ''Fixed'' = Some [''crash on start #42 [#42]'']
   \<and> the (get_changes_from_git login_scenario) ''Fixed'' \<noteq> Some [''crash on start [#42]'']"
  unfolding login_scenario_def by code_simp

text \<open>
  C4, amended: for every sequence of non-ignored classified changes, each record's rendered
  line (subject plus optional " [#N]" suffix) is routed by its type as the routing table
  says (feat, add: Added; fix, bugfix: Fixed; refactor, perf, improve: Changed; remove:
  Removed; security: Security; deprecate: Deprecated; docs, test, chore, style: dropped;
  every other type: Changed), in the order of the commits; \<open>get_changes_from_git\<close> returns
  these buckets for a history with at least one such change. The three commits of the
  scenario give Added: "add login", Fixed: "crash on start #42 [#42]" and nothing else, and
  with the current version 1.2.3 the automatic mode resolves to 1.3.0.
\<close>

theorem commits_routed_by_type:
  assumes "\<forall>c \<in> set commits. commit_type c \<noteq> ''ignore''"
  shows "(\<forall>category \<in> set ordered_categories.
            group_commits commits category
              = Some (map render_entry
                        (filter (\<lambda>c. spec_category (commit_type c) = Some category) commits)))
       \<and> (commits = parse_commits git \<and> commits \<noteq> []
            \<longrightarrow> get_changes_from_git git = Some (group_commits commits))
       \<and> get_changes_from_git login_scenario \<noteq> None
       \<and> map (the (get_changes_from_git login_scenario)) ordered_categories
           = [Some [''add login''], Some [], Some [], Some [],
              Some [''crash on start #42 [#42]''], Some []]
       \<and> get_next_version login_scenario [] ''1.2.3'' True False = (Inr ''1.3.0'', [])"
proof -
  have scenario: "get_changes_from_git login_scenario \<noteq> None
       \<and> map (the (get_changes_from_git login_scenario)) ordered_categories
           = [Some [''add login''], Some [], Some [], Some [],
              Some [''crash on start #42 [#42]''], Some []]
       \<and> get_next_version login_scenario [] ''1.2.3'' True False = (Inr ''1.3.0'', [])"
    unfolding login_scenario_def by code_simp
  have routed: "\<forall>category \<in> set ordered_categories.
            group_commits commits category
              = Some (map render_entry
                        (filter (\<lambda>c. spec_category (commit_type c) = Some category) commits))"
    by (simp add: group_commits_at)
  have returned: "commits = parse_commits git \<and> commits \<noteq> []
            \<longrightarrow> get_changes_from_git git = Some (group_commits commits)"
    by (simp add: get_changes_from_git_def Let_def)
  from routed returned scenario show ?thesis by blast
qed

theorem commits_routed_by_type_witness:
  "list_all (\<lambda>c. commit_type c \<noteq> ''ignore'') (parse_commits login_scenario)
   \<and> group_commits (parse_commits login_scenario) ''Fixed'' = Some [''crash on start #42 [#42]'']
   \<and> group_commits (parse_commits login_scenario) ''Added'' = Some [''add login'']
   \<and> group_commits (parse_commits login_scenario) ''Changed'' = Some []"
proof -
  have h: "\<forall>c \<in> set (parse_commits login_scenario). commit_type c \<noteq> ''ignore''"
    unfolding login_scenario_def by code_simp
  have e: "map render_entry (filter (\<lambda>c. spec_category (commit_type c) = Some ''Fixed'')
             (parse_commits login_scenario)) = [''crash on start #42 [#42]'']"
    "map render_entry (filter (\<lambda>c. spec_category (commit_type c) = Some ''Added'')
             (parse_commits login_scenario)) = [''add login'']"
    "map render_entry (filter (\<lambda>c. spec_category (commit_type c) = Some ''Changed'')
             (parse_commits login_scenario)) = []"
    unfolding login_scenario_def by code_simp+
  have m: "''Fixed'' \<in> set ordered_categories" "''Added'' \<in> set ordered_categories"
    "''Changed'' \<in> set ordered_categories"
    by (simp_all add: ordered_categories_def)
  from commits_routed_by_type [OF h]
  have "\<forall>category \<in> set ordered_categories.
          group_commits (parse_commits login_scenario) category
            = Some (map render_entry
                      (filter (\<lambda>c. spec_category (commit_type c) = Some category)
                         (parse_commits login_scenario)))"
    by blast
  with m have "group_commits (parse_commits login_scenario) ''Fixed''
        = Some (map render_entry (filter (\<lambda>c. spec_category (commit_type c) = Some ''Fixed'')
             (parse_commits login_scenario)))"
    "group_commits (parse_commits login_scenario) ''Added''
        = Some (map render_entry (filter (\<lambda>c. spec_category (commit_type c) = Some ''Added'')
             (parse_commits login_scenario)))"
    "group_commits (parse_commits login_scenario) ''Changed''
        = Some (map render_entry (filter (\<lambda>c. spec_category (commit_type c) = Some ''Changed'')
             (parse_commits login_scenario)))"
    by blast+
  with e h show ?thesis by (simp add: list_all_iff)
qed

text \<open>
  C6, as stated: for every mapping and version a category header appears in the entry
  exactly when the category has items, and no header is followed by the end of the text.
  An item with a line break inside puts the line "### Added" into the entry although the
  category Added has no items, and that line is the last one of the entry.
\<close>

theorem embedded_newline_makes_empty_header:
  "category_items [''Changed'' \<mapsto> [''tidy up\<newline>### Added'']] ''Added'' = []
   \<and> split_on nl (format_changelog [''Changed'' \<mapsto> [''tidy up\<newline>### Added'']] ''1.1.0''
                     \<lparr>year = 2026, month = 11, day = 3\<rparr>)
       = [''## [1.1.0] - 2026-11-03'', [], ''### Changed'', [], ''- tidy up'', ''### Added'', []]
   \<and> \<not> no_empty_section
         (split_on nl (format_changelog [''Changed'' \<mapsto> [''tidy up\<newline>### Added'']] ''1.1.0''
                         \<lparr>year = 2026, month = 11, day = 3\<rparr>))"
  by code_simp

text \<open>
  C6, amended: for every version without a line break and every mapping whose items of the
  six categories are single lines, the line "### <Category>" is a line of the entry if and
  only if the category's item list is not empty; the header lines of the entry are those of
  the non-empty categories in the fixed order Added, Changed, Deprecated, Removed, Fixed,
  Security; and every header line is followed by a blank line and an item line, never by
  another header or the end of the text.
\<close>

theorem format_changelog_sections:
  assumes "nl \<notin> set version"
    and "\<forall>category \<in> set ordered_categories. \<forall>item \<in> set (category_items chg category). nl \<notin> set item"
  shows "(\<forall>category \<in> set ordered_categories.
            (''### '' @ category \<in> set (split_on nl (format_changelog chg version today)))
              = (category_items chg category \<noteq> []))
       \<and> filter is_header_line (split_on nl (format_changelog chg version today))
           = map (\<lambda>category. ''### '' @ category)
               (filter (\<lambda>category. category_items chg category \<noteq> []) ordered_categories)
       \<and> no_empty_section (split_on nl (format_changelog chg version today))"
proof -
  let ?lines = "split_on nl (format_changelog chg version today)"
  let ?present = "filter (\<lambda>category. category_items chg category \<noteq> []) ordered_categories"
  note lines = format_changelog_lines [OF assms, of today]
  have headers: "filter is_header_line ?lines = map (\<lambda>category. ''### '' @ category) ?present"
    unfolding lines by (simp add: header_lines_of_sections is_header_line_def)
  have sections: "no_empty_section ?lines"
    unfolding lines by (simp add: no_empty_section_sections is_header_line_def)
  have "(''### '' @ category \<in> set ?lines) = (category_items chg category \<noteq> [])"
    if "category \<in> set ordered_categories" for category
  proof -
    have "(''### '' @ category \<in> set ?lines) = (''### '' @ category \<in> set (filter is_header_line ?lines))"
      by (simp add: is_header_line_def)
    also have "\<dots> = (category \<in> set ?present)"
      unfolding headers by auto
    also have "\<dots> = (category_items chg category \<noteq> [])"
      using that by simp
    finally show ?thesis .
  qed
  with headers sections show ?thesis by blast
qed


theorem format_changelog_sections_witness:
  "nl \<notin> set ''1.1.0''
   \<and> list_all (\<lambda>category. list_all (\<lambda>item. nl \<notin> set item)
         (category_items [''Added'' \<mapsto> [''add login''], ''Changed'' \<mapsto> [], ''Fixed'' \<mapsto> [''crash on start'']] category))
       ordered_categories
   \<and> filter is_header_line
         (split_on nl (format_changelog [''Added'' \<mapsto> [''add login''], ''Changed'' \<mapsto> [], ''Fixed'' \<mapsto> [''crash on start'']]
                         ''1.1.0'' \<lparr>year = 2026, month = 11, day = 3\<rparr>))
       = [''### Added'', ''### Fixed'']
   \<and> no_empty_section
         (split_on nl (format_changelog [''Added'' \<mapsto> [''add login''], ''Changed'' \<mapsto> [], ''Fixed'' \<mapsto> [''crash on start'']]
                         ''1.1.0'' \<lparr>year = 2026, month = 11, day = 3\<rparr>))"
proof -
  let ?chg = "[''Added'' \<mapsto> [''add login''], ''Changed'' \<mapsto> [], ''Fixed'' \<mapsto> [''crash on start'']]"
  have v: "nl \<notin> set ''1.1.0''" by simp
  have i: "\<forall>category \<in> set ordered_categories. \<forall>item \<in> set (category_items ?chg category). nl \<notin> set item"
    by (simp add: ordered_categories_def category_items_def)
  have p: "filter (\<lambda>category. category_items ?chg category \<noteq> []) ordered_categories = [''Added'', ''Fixed'']"
    by (simp add: ordered_categories_def category_items_def)
  show ?thesis
    using format_changelog_sections [OF v i, of "\<lparr>year = 2026, month = 11, day = 3\<rparr>"] v i
    by (simp add: p list_all_iff)
qed

text \<open>
  C7. The repository URL should lose only a trailing ".git" and a leading "git+", every other
  character staying as it is. \<open>str.replace\<close> removes every occurrence: the URL
  https://github.com/user/user.github.io has neither, and the generated links point to
  https://github.com/user/userhub.io.
\<close>

theorem dot_git_removed_inside_url:
  "normalize_repo_url ''git+https://github.com/org/repo.git'' = ''https://github.com/org/repo''
   \<and> normalize_repo_url ''https://github.com/user/user.github.io'' = ''https://github.com/user/userhub.io''
   \<and> update_version_links
        (PackageJson (JObject [(''name'', JString ''site''),
                               (''repository'', JObject [(''type'', JString ''git''),
                                                         (''url'', JString ''https://github.com/user/user.github.io'')])]))
        ''# Changelog\<newline>'' ''1.1.0''
      = (''# Changelog\<newline>\<newline>\<newline>## Links\<newline>[Unreleased]: https://github.com/user/userhub.io/compare/v1.1.0...HEAD\<newline>[1.1.0]: https://github.com/user/userhub.io/releases/tag/v1.1.0\<newline>'', [])"
  by code_simp

text \<open>
  C8. When the footer update fails (package.json cannot be read or decoded, the repository
  URL is not a string, or the replacement template is rejected), \<open>update_version_links\<close>
  prints the warning and returns the document it was given; \<open>update_changelog_file\<close> then
  writes the document with the entry inserted behind the anchor line (the text before the
  entry ends with the anchor, white space and a newline), the links unchanged, and does not
  fail.
\<close>

theorem links_failure_keeps_entry:
  assumes "changelog_md fs = Some doc" and "search_unreleased doc = Some n"
    and "links_attempt (package_json fs) (take n doc @ [nl] @ changelog_entry @ [nl] @ drop n doc) version
           = Inl err"
  shows "update_version_links (package_json fs)
             (take n doc @ [nl] @ changelog_entry @ [nl] @ drop n doc) version
           = (take n doc @ [nl] @ changelog_entry @ [nl] @ drop n doc, [LinksWarning err])
       \<and> update_changelog_file fs changelog_entry version
           = (Inr (),
              fs\<lparr>changelog_md := Some (take n doc @ [nl] @ changelog_entry @ [nl] @ drop n doc)\<rparr>,
              [LinksWarning err])
       \<and> (\<exists>before ws. take n doc = before @ ''## [Unreleased]'' @ ws @ [nl] \<and> list_all is_space ws)"
proof -
  have links: "update_version_links (package_json fs)
             (take n doc @ [nl] @ changelog_entry @ [nl] @ drop n doc) version
           = (take n doc @ [nl] @ changelog_entry @ [nl] @ drop n doc, [LinksWarning err])"
    using assms(3) by (simp add: update_version_links_def)
  have "update_changelog_file fs changelog_entry version
           = (Inr (),
              fs\<lparr>changelog_md := Some (take n doc @ [nl] @ changelog_entry @ [nl] @ drop n doc)\<rparr>,
              [LinksWarning err])"
    unfolding update_changelog_file_def Let_def using assms(1,2) links by simp
  with links search_unreleased_shape [OF assms(2)] show ?thesis by blast
qed

theorem links_failure_keeps_entry_witness:
  "search_unreleased ''## [Unreleased]\<newline>'' = Some 16
   \<and> links_attempt BrokenPackageJson ''## [Unreleased]\<newline>\<newline>## [1.1.0] - 2026-11-03\<newline>\<newline>'' ''1.1.0'' = Inl JSONError
   \<and> update_changelog_file \<lparr>changelog_md = Some ''## [Unreleased]\<newline>'', package_json = BrokenPackageJson\<rparr>
        ''## [1.1.0] - 2026-11-03\<newline>'' ''1.1.0''
      = (Inr (), \<lparr>changelog_md = Some ''## [Unreleased]\<newline>\<newline>## [1.1.0] - 2026-11-03\<newline>\<newline>'', package_json = BrokenPackageJson\<rparr>,
         [LinksWarning JSONError])"
proof -
  let ?fs = "\<lparr>changelog_md = Some ''## [Unreleased]\<newline>'', package_json = BrokenPackageJson\<rparr>"
  have d: "changelog_md ?fs = Some ''## [Unreleased]\<newline>''" by simp
  have s: "search_unreleased ''## [Unreleased]\<newline>'' = Some 16"
    by code_simp
  have a: "links_attempt (package_json ?fs)
             (take 16 ''## [Unreleased]\<newline>'' @ [nl] @ ''## [1.1.0] - 2026-11-03\<newline>'' @ [nl] @ drop 16 ''## [Unreleased]\<newline>'')
             ''1.1.0'' = Inl JSONError"
    by (simp add: links_attempt_def resolve_repo_url_def)
  show ?thesis
    using links_failure_keeps_entry [OF d s a] s a
    by simp
qed

text \<open>
  C10. For every version and every mapping in which each of the six categories is missing
  or empty, \<open>format_changelog\<close> returns the header line "## [version] - date" and one
  newline, nothing else; the formatter rejects nothing, and for such a mapping with no other
  keys the guard of the caller finds no changes.
\<close>

theorem format_changelog_empty:
  assumes "\<forall>category \<in> set ordered_categories. chg category = None \<or> chg category = Some []"
  shows "format_changelog chg version today = ''## ['' @ version @ ''] - '' @ isoformat today @ [nl]
       \<and> (dom chg \<subseteq> set ordered_categories \<longrightarrow> no_changes_detected (Some chg))"
proof -
  have "no_changes_detected (Some chg)" if "dom chg \<subseteq> set ordered_categories"
    using that assms by (fastforce simp: no_changes_detected_def)
  then show ?thesis
    using foldl_format_category_empty [OF assms] by (simp add: format_changelog_def)
qed

theorem format_changelog_empty_witness:
  "list_all (\<lambda>category. empty_changes category = None \<or> empty_changes category = Some [])
     ordered_categories
   \<and> format_changelog empty_changes ''1.1.0'' \<lparr>year = 2026, month = 11, day = 3\<rparr> = ''## [1.1.0] - 2026-11-03\<newline>''
   \<and> no_changes_detected (Some empty_changes)"
proof -
  have h: "\<forall>category \<in> set ordered_categories. empty_changes category = None \<or> empty_changes category = Some []"
    by (simp add: ordered_categories_def empty_changes_def)
  have d: "dom empty_changes \<subseteq> set ordered_categories"
    by (simp add: ordered_categories_def empty_changes_def)
  have i: "isoformat \<lparr>year = 2026, month = 11, day = 3\<rparr> = ''2026-11-03''"
    by code_simp
  show ?thesis
    using format_changelog_empty [OF h, of "''1.1.0''" "\<lparr>year = 2026, month = 11, day = 3\<rparr>"] h d
    by (simp add: i list_all_iff)
qed


end
